theory Spec2Isabelle
  imports Main
begin

section \<open>Text filter: \<open>remove_think_content\<close>\<close>

text \<open>
  Python strings are sequences of code points; \<open>string\<close> is a list of bytes. The two
  markers are ASCII, every other atom of the two patterns matches any character, so the
  filter acts on the UTF-8 bytes of a text exactly as it acts on its code points.
\<close>

definition think_open :: string where
  "think_open = ''<think>''"

definition think_close :: string where
  "think_close = ''</think>''"

text \<open>\<open>t.startswith(p)\<close>\<close>

fun startswith :: "string \<Rightarrow> string \<Rightarrow> bool" where
  "startswith t [] = True"
| "startswith [] (p # ps) = False"
| "startswith (c # cs) (p # ps) = (c = p \<and> startswith cs ps)"

text \<open>\<open>sub in t\<close>\<close>

fun contains :: "string \<Rightarrow> string \<Rightarrow> bool" where
  "contains [] sub = startswith [] sub"
| "contains (c # cs) sub = (startswith (c # cs) sub \<or> contains cs sub)"

text \<open>
  The character classes of the two patterns: \<open>\s\<close> (on ASCII), \<open>[\s\S]\<close>, and \<open>.\<close>,
  which excludes the newline unless \<open>re.DOTALL\<close> is set.
\<close>

definition is_space :: "char \<Rightarrow> bool" where
  "is_space c = (c \<in> set [CHR 0x09, CHR 0x0A, CHR 0x0B, CHR 0x0C, CHR 0x0D,
                          CHR 0x1C, CHR 0x1D, CHR 0x1E, CHR 0x1F, CHR 0x20])"

definition cls_space_nonspace :: "char \<Rightarrow> bool" where
  "cls_space_nonspace c = (is_space c \<or> \<not> is_space c)"

definition cls_dot :: "bool \<Rightarrow> char \<Rightarrow> bool" where
  "cls_dot dotall c = (dotall \<or> c \<noteq> CHR 0x0A)"

text \<open>
  The backtracking matcher on a pattern \<open>open C*? close\<close>. After the opening literal,
  \<open>lazy_until\<close> tries the closing literal first and consumes one more character of the
  class \<open>C\<close> only when that fails (the lazy star); it gives the text after the match.
\<close>

fun lazy_until :: "(char \<Rightarrow> bool) \<Rightarrow> string \<Rightarrow> string \<Rightarrow> string option" where
  "lazy_until cls cl [] = (if startswith [] cl then Some [] else None)"
| "lazy_until cls cl (c # cs) =
     (if startswith (c # cs) cl then Some (drop (length cl) (c # cs))
      else if cls c then lazy_until cls cl cs
      else None)"

definition match_here :: "(char \<Rightarrow> bool) \<Rightarrow> string \<Rightarrow> string option" where
  "match_here cls t =
     (if startswith t think_open
      then lazy_until cls think_close (drop (length think_open) t)
      else None)"

lemma lazy_until_length:
  "lazy_until cls cl t = Some r \<Longrightarrow> length r \<le> length t"
  by (induction t) (auto split: if_splits)

lemma match_here_shorter:
  assumes "match_here cls t = Some r"
  shows "length r < length t"
proof -
  from assms have s: "startswith t think_open"
    and l: "lazy_until cls think_close (drop (length think_open) t) = Some r"
    by (auto simp: match_here_def split: if_splits)
  from s have "t \<noteq> []"
    by (cases t) (auto simp: think_open_def)
  moreover from lazy_until_length [OF l] have "length r \<le> length t - 7"
    by (simp add: think_open_def)
  ultimately show ?thesis
    by (cases t) auto
qed

text \<open>
  \<open>re.sub(pattern, "", text)\<close>: scan from the left; at the leftmost position where the
  pattern matches, drop the match and go on after it; a character where it does not match
  is kept.
\<close>

function re_sub :: "(char \<Rightarrow> bool) \<Rightarrow> string \<Rightarrow> string" where
  "re_sub cls [] = []"
| "re_sub cls (c # cs) =
     (case match_here cls (c # cs) of
        Some rest \<Rightarrow> re_sub cls rest
      | None \<Rightarrow> c # re_sub cls cs)"
  by pat_completeness auto
termination
  by (relation "measure (\<lambda>(cls, t). length t)") (auto dest: match_here_shorter)

definition remove_think_content :: "string \<Rightarrow> string" where
  "remove_think_content text =
     (let cleaned_text = re_sub cls_space_nonspace text
      in if contains cleaned_text think_open \<or> contains cleaned_text think_close
         then re_sub (cls_dot True) cleaned_text
         else cleaned_text)"

subsection \<open>The filter as the specification words it\<close>

text \<open>
  These definitions follow the specification, not the source; the source's passes are
  compared with them below. \<open>find_first t sub\<close> is the index of the leftmost occurrence
  of \<open>sub\<close> in \<open>t\<close>, \<open>find_last\<close> that of the rightmost one.
\<close>

fun find_first :: "string \<Rightarrow> string \<Rightarrow> nat option" where
  "find_first [] sub = (if startswith [] sub then Some 0 else None)"
| "find_first (c # cs) sub =
     (if startswith (c # cs) sub then Some 0 else map_option Suc (find_first cs sub))"

fun find_last :: "string \<Rightarrow> string \<Rightarrow> nat option" where
  "find_last [] sub = (if startswith [] sub then Some 0 else None)"
| "find_last (c # cs) sub =
     (case find_last cs sub of
        Some j \<Rightarrow> Some (Suc j)
      | None \<Rightarrow> if startswith (c # cs) sub then Some 0 else None)"

lemma find_first_open_nonempty:
  "find_first t think_open = Some i \<Longrightarrow> t \<noteq> []"
  by (cases t) (auto simp: think_open_def)

text \<open>
  "Removes every substring delimited by a start marker and a matching end marker
  (including the markers themselves), matched non-greedily (shortest enclosed span) left
  to right": take the leftmost start marker, the first end marker after it, drop the span
  and go on with the text behind it.
\<close>

function spec_lazy_strip :: "string \<Rightarrow> string" where
  "spec_lazy_strip t =
     (case find_first t think_open of
        None \<Rightarrow> t
      | Some i \<Rightarrow>
          (case find_first (drop (i + length think_open) t) think_close of
             None \<Rightarrow> t
           | Some j \<Rightarrow>
               take i t @
               spec_lazy_strip (drop (j + length think_close) (drop (i + length think_open) t))))"
  by pat_completeness auto
termination
proof (relation "measure length")
  show "wf (measure length)" by simp
next
  fix t :: string and i j
  assume "find_first t think_open = Some i"
  then have "t \<noteq> []" by (rule find_first_open_nonempty)
  then show "(drop (j + length think_close) (drop (i + length think_open) t), t) \<in> measure length"
    by (cases t) (auto simp: think_open_def think_close_def)
qed

declare spec_lazy_strip.simps [simp del]

text \<open>
  "A second, greedier pass that treats the first start marker and the last end marker as
  delimiting one content span and removes everything between and including them."
\<close>

definition spec_greedy_pass :: "string \<Rightarrow> string" where
  "spec_greedy_pass t =
     (case find_first t think_open of
        None \<Rightarrow> t
      | Some i \<Rightarrow>
          (case find_last (drop (i + length think_open) t) think_close of
             None \<Rightarrow> t
           | Some j \<Rightarrow>
               take i t @ drop (j + length think_close) (drop (i + length think_open) t)))"

text \<open>
  An occurrence of the marker pair: a start marker with an end marker somewhere behind it.
\<close>

fun has_think_pair :: "string \<Rightarrow> bool" where
  "has_think_pair [] = False"
| "has_think_pair (c # cs) =
     ((startswith (c # cs) think_open \<and> contains (drop (length think_open) (c # cs)) think_close)
      \<or> has_think_pair cs)"

section \<open>Export: \<open>create_markdown\<close>\<close>

text \<open>
  \<open>today\<close> is the reading of the clock, \<open>datetime.now().strftime('%B %d, %Y')\<close>.
\<close>

definition create_markdown :: "string \<Rightarrow> string \<Rightarrow> string" where
  "create_markdown today content =
     (let cleaned_content = remove_think_content content;
          markdown_content = ''# AI & Data Analytics Newsletter'' @ [CHR 0x0A, CHR 0x0A];
          markdown_content = markdown_content @ ''**Generated on '' @ today @ ''**''
                               @ [CHR 0x0A, CHR 0x0A];
          markdown_content = markdown_content @ cleaned_content
      in markdown_content)"

section \<open>Generation pipeline\<close>

text \<open>
  Exceptions are values; \<open>str_exn\<close> is Python's \<open>str(e)\<close>. \<open>str(KeyError(k))\<close> is the
  key in quotes.
\<close>

datatype exn =
    Exception string
  | RequestException string
  | KeyError string
  | AttributeError string

fun str_exn :: "exn \<Rightarrow> string" where
  "str_exn (Exception m) = m"
| "str_exn (RequestException m) = m"
| "str_exn (KeyError k) = [CHR 0x27] @ k @ [CHR 0x27]"
| "str_exn (AttributeError m) = m"

definition newline :: string where
  "newline = [CHR 0x0A]"

text \<open>The three templates, each as the function that fills its placeholders in.\<close>

definition NEWSLETTER_TEMPLATE :: "string \<Rightarrow> string" where
  "NEWSLETTER_TEMPLATE user_input =
     newline
     @ ''Write a professional AI and Data Analytics newsletter with the following topic:'' @ newline
     @ user_input @ newline
     @ newline
     @ ''Format it with:'' @ newline
     @ ''1. Headline'' @ newline
     @ ''2. Introduction'' @ newline
     @ ''3. Main content with subsections'' @ newline
     @ ''4. Key takeaways'' @ newline
     @ newline
     @ ''Write in a clear, professional style. Provide the newsletter content directly without any meta-commentary.'' @ newline
     @ ''If you need to think through your process, wrap that text in <think> tags.'' @ newline"

definition REFINEMENT_TEMPLATE :: "string \<Rightarrow> string \<Rightarrow> string" where
  "REFINEMENT_TEMPLATE current_content refinement_instructions =
     newline
     @ ''Here is a newsletter section:'' @ newline
     @ current_content @ newline
     @ newline
     @ ''Revise it according to these instructions:'' @ newline
     @ refinement_instructions @ newline
     @ newline
     @ ''Provide only the revised content without any explanations.'' @ newline
     @ ''If you need to think through your process, wrap that text in <think> tags.'' @ newline"

definition ENTERTAINMENT_TEMPLATE :: "string \<Rightarrow> string" where
  "ENTERTAINMENT_TEMPLATE current_content =
     newline
     @ ''Here is a newsletter section:'' @ newline
     @ current_content @ newline
     @ newline
     @ ''Revise it to make it more entertaining and engaging for readers interested in AI and Data Analytics. Use a lively tone and add interesting anecdotes or examples where appropriate.'' @ newline
     @ newline
     @ ''Provide only the revised content without any explanations.'' @ newline
     @ ''If you need to think through your process, wrap that text in <think> tags.'' @ newline"

text \<open>
  The model endpoint is outside the program and need not answer the same prompt twice in
  the same way: \<open>llm n prompt\<close> is what \<open>chain.run\<close> does on the \<open>n\<close>-th call of the
  session when the filled-in template is \<open>prompt\<close>, either the text it returns or the
  exception it raises.
\<close>

type_synonym llm = "nat \<Rightarrow> string \<Rightarrow> exn + string"

text \<open>
  The session: \<open>st.session_state.newsletter_content\<close>, the messages shown by \<open>st.error\<close>,
  the number of model calls made so far and the URLs requested so far.
\<close>

record session =
  newsletter_content :: string
  errors :: "string list"
  llm_calls :: nat
  requests_made :: "string list"

definition initial_session :: session where
  "initial_session =
     \<lparr>newsletter_content = [], errors = [], llm_calls = 0, requests_made = []\<rparr>"

definition chain_run :: "llm \<Rightarrow> string \<Rightarrow> session \<Rightarrow> (exn + string) \<times> session" where
  "chain_run llm prompt s = (llm (llm_calls s) prompt, s\<lparr>llm_calls := Suc (llm_calls s)\<rparr>)"

definition st_error :: "string \<Rightarrow> session \<Rightarrow> session" where
  "st_error msg s = s\<lparr>errors := errors s @ [msg]\<rparr>"

definition generate_newsletter :: "string \<Rightarrow> llm \<Rightarrow> session \<Rightarrow> string \<times> session" where
  "generate_newsletter user_input llm s =
     (case chain_run llm (NEWSLETTER_TEMPLATE user_input) s of
        (Inr result, s') \<Rightarrow> (result, s')
      | (Inl e, s') \<Rightarrow> ([], st_error (''Error generating newsletter: '' @ str_exn e) s'))"

definition refine_newsletter ::
  "string \<Rightarrow> string \<Rightarrow> llm \<Rightarrow> session \<Rightarrow> string \<times> session" where
  "refine_newsletter current_content refinement_instructions llm s =
     (case chain_run llm (REFINEMENT_TEMPLATE current_content refinement_instructions) s of
        (Inr result, s') \<Rightarrow> (result, s')
      | (Inl e, s') \<Rightarrow>
          (current_content, st_error (''Error refining newsletter: '' @ str_exn e) s'))"

definition enhance_newsletter :: "string \<Rightarrow> llm \<Rightarrow> session \<Rightarrow> string \<times> session" where
  "enhance_newsletter current_content llm s =
     (case chain_run llm (ENTERTAINMENT_TEMPLATE current_content) s of
        (Inr result, s') \<Rightarrow> (result, s')
      | (Inl e, s') \<Rightarrow>
          (current_content, st_error (''Error enhancing newsletter: '' @ str_exn e) s'))"

text \<open>
  The handlers of \<open>main\<close>. "Generate Newsletter" generates, enhances what came back and
  stores the result. "Refine Content" is drawn only while the stored content is not empty.
\<close>

definition on_generate :: "string \<Rightarrow> llm \<Rightarrow> session \<Rightarrow> session" where
  "on_generate user_input llm s =
     (case generate_newsletter user_input llm s of
        (initial_content, s1) \<Rightarrow>
          (case enhance_newsletter initial_content llm s1 of
             (enhanced, s2) \<Rightarrow> s2\<lparr>newsletter_content := enhanced\<rparr>))"

definition on_refine :: "string \<Rightarrow> llm \<Rightarrow> session \<Rightarrow> session" where
  "on_refine refinement_instructions llm s =
     (if newsletter_content s = [] then s
      else (case refine_newsletter (newsletter_content s) refinement_instructions llm s of
              (refined, s1) \<Rightarrow> s1\<lparr>newsletter_content := refined\<rparr>))"

text \<open>
  A scripted endpoint for concrete runs: the \<open>n\<close>-th call gets the \<open>n\<close>-th entry of the
  script, whatever the prompt; a call beyond the script fails.
\<close>

definition scripted_llm :: "(exn + string) list \<Rightarrow> llm" where
  "scripted_llm script n prompt =
     (if n < length script then script ! n else Inl (Exception ''no response''))"

section \<open>News lookup\<close>

text \<open>
  An article as the program reads it. \<open>source_name\<close> is the value of
  \<open>article['source']['name']\<close> when both lookups succeed, and \<open>None\<close> when one of them
  raises \<open>KeyError\<close>; \<open>source_present\<close> then tells whether the article has a \<open>source\<close>
  entry at all. Source names are strings, as the news service sends them (a \<open>source\<close> or a
  \<open>name\<close> that is JSON \<open>null\<close> is outside this type).
\<close>

record article =
  title :: string
  source_present :: bool
  source_name :: "string option"
  publishedAt :: string
  description :: string
  url :: string

text \<open>
  What \<open>requests.get\<close> does on a URL: it raises a \<open>RequestException\<close>, or it returns a
  response. A response has its status code, the message of the \<open>HTTPError\<close> that
  \<open>raise_for_status\<close> raises for an error status, and its body: a JSON object with or
  without an \<open>articles\<close> entry (a list of articles, when it is there), some other JSON
  value, or no JSON at all, with the message of the error that \<open>response.json()\<close> raises.
\<close>

datatype body = Json_object "article list option" | Json_other | Not_json string

datatype http_result = Raises string | Response nat string body

type_synonym network = "string \<Rightarrow> http_result"

text \<open>The f-string renders a missing key, \<open>None\<close>, as the text \<open>None\<close>.\<close>

definition format_api_key :: "string option \<Rightarrow> string" where
  "format_api_key api_key = (case api_key of None \<Rightarrow> ''None'' | Some k \<Rightarrow> k)"

definition news_url :: "string \<Rightarrow> string option \<Rightarrow> string" where
  "news_url query api_key =
     ''https://newsapi.org/v2/everything?q='' @ query
     @ ''&sortBy=publishedAt&pageSize=5&apiKey='' @ format_api_key api_key"

text \<open>
  \<open>fetch_news_articles\<close>: the request is always sent. A \<open>RequestException\<close> (which the
  error of \<open>raise_for_status\<close> and, in requests 2.27 and later, that of \<open>response.json()\<close>
  are) is reported and gives the empty list; \<open>.get\<close> on a JSON value that is no object
  raises \<open>AttributeError\<close>, which is not caught.
\<close>

definition fetch_news_articles ::
  "string \<Rightarrow> string option \<Rightarrow> network \<Rightarrow> session \<Rightarrow> (exn + article list) \<times> session" where
  "fetch_news_articles query api_key net s =
     (let url = news_url query api_key;
          s1 = s\<lparr>requests_made := requests_made s @ [url]\<rparr>
      in case net url of
           Raises msg \<Rightarrow> (Inr [], st_error (''Error fetching news articles: '' @ msg) s1)
         | Response status http_error b \<Rightarrow>
             if 400 \<le> status \<and> status < 600
             then (Inr [], st_error (''Error fetching news articles: '' @ http_error) s1)
             else (case b of
                     Json_object (Some articles) \<Rightarrow> (Inr articles, s1)
                   | Json_object None \<Rightarrow> (Inr [], s1)
                   | Json_other \<Rightarrow> (Inl (AttributeError ''get''), s1)
                   | Not_json msg \<Rightarrow>
                       (Inr [], st_error (''Error fetching news articles: '' @ msg) s1)))"

text \<open>The "Search News" handler of \<open>main\<close>, up to the fetch; \<open>NEWS_API_KEY\<close> is
  \<open>os.getenv('NEWS_API_KEY')\<close>, \<open>None\<close> when the variable is not set.\<close>

definition on_search_news ::
  "string \<Rightarrow> string option \<Rightarrow> network \<Rightarrow> session \<Rightarrow> (exn + article list) \<times> session" where
  "on_search_news news_query NEWS_API_KEY net s =
     fetch_news_articles news_query NEWS_API_KEY net s"

text \<open>
  \<open>Counter(sources)\<close>: a dictionary in insertion order, so the keys stand in the order in
  which they were first met.
\<close>

fun counter_add :: "'a \<Rightarrow> ('a \<times> nat) list \<Rightarrow> ('a \<times> nat) list" where
  "counter_add k [] = [(k, 1)]"
| "counter_add k ((k', n) # rest) =
     (if k = k' then (k', Suc n) # rest else (k', n) # counter_add k rest)"

definition Counter :: "'a list \<Rightarrow> ('a \<times> nat) list" where
  "Counter xs = foldl (\<lambda>c k. counter_add k c) [] xs"

text \<open>
  \<open>most_common(n)\<close> is \<open>heapq.nlargest(n, items, key=count)\<close>, which is
  \<open>sorted(items, key=count, reverse=True)[:n]\<close>: a stable sort by descending count, so
  that items of equal count keep the order they had.
\<close>

fun insert_desc :: "('a \<times> nat) \<Rightarrow> ('a \<times> nat) list \<Rightarrow> ('a \<times> nat) list" where
  "insert_desc x [] = [x]"
| "insert_desc x (y # ys) =
     (if snd y \<le> snd x then x # y # ys else y # insert_desc x ys)"

definition sorted_reverse :: "('a \<times> nat) list \<Rightarrow> ('a \<times> nat) list" where
  "sorted_reverse items = foldr insert_desc items []"

definition most_common :: "nat \<Rightarrow> ('a \<times> nat) list \<Rightarrow> ('a \<times> nat) list" where
  "most_common n c = take n (sorted_reverse c)"

fun source_names :: "article list \<Rightarrow> exn + string list" where
  "source_names [] = Inr []"
| "source_names (a # as) =
     (case source_name a of
        None \<Rightarrow> Inl (KeyError (if source_present a then ''name'' else ''source''))
      | Some name \<Rightarrow>
          (case source_names as of Inl e \<Rightarrow> Inl e | Inr names \<Rightarrow> Inr (name # names)))"

definition get_top_news_orgs :: "article list \<Rightarrow> exn + (string \<times> nat) list" where
  "get_top_news_orgs articles =
     (case source_names articles of
        Inl e \<Rightarrow> Inl e
      | Inr sources \<Rightarrow> Inr (most_common 3 (Counter sources)))"

text \<open>
  For stating the ranking: the position at which a name first occurs in a list, and an
  article that has nothing but its source name.
\<close>

definition first_index :: "'a list \<Rightarrow> 'a \<Rightarrow> nat" where
  "first_index xs k = length (takeWhile (\<lambda>x. x \<noteq> k) xs)"

definition article_from :: "string \<Rightarrow> article" where
  "article_from name =
     \<lparr>title = [], source_present = True, source_name = Some name, publishedAt = [],
      description = [], url = []\<rparr>"

text \<open>
  Two networks for concrete runs: one answers every request 401, with the message that
  \<open>raise_for_status\<close> builds from the status, the reason and the URL; one refuses every
  connection.
\<close>

definition unauthorized_network :: network where
  "unauthorized_network u =
     Response 401 (''401 Client Error: Unauthorized for url: '' @ u) (Json_object None)"

definition unreachable_network :: network where
  "unreachable_network u = Raises ''connection refused''"

section \<open>Properties of the text filter\<close>

lemma lazy_until_contains:
  "lazy_until cls cl t = Some r \<Longrightarrow> contains t cl"
  by (induction t) (auto split: if_splits)

lemma contains_drop: "contains (drop n t) s \<Longrightarrow> contains t s"
proof (induction t arbitrary: n)
  case Nil
  then show ?case by simp
next
  case (Cons c cs)
  show ?case
  proof (cases n)
    case 0
    with Cons.prems show ?thesis by simp
  next
    case (Suc m)
    with Cons.prems have "contains (drop m cs) s" by simp
    then have "contains cs s" by (rule Cons.IH)
    then show ?thesis by simp
  qed
qed

lemma match_here_markers:
  assumes "match_here cls t = Some r"
  shows "startswith t think_open"
    and "contains (drop (length think_open) t) think_close"
  using assms by (auto simp: match_here_def dest: lazy_until_contains split: if_splits)

lemma re_sub_no_open: "\<not> contains t think_open \<Longrightarrow> re_sub cls t = t"
proof (induction t)
  case Nil
  then show ?case by simp
next
  case (Cons c cs)
  then have "match_here cls (c # cs) = None"
    by (auto simp: match_here_def)
  with Cons show ?case by simp
qed

lemma re_sub_no_close: "\<not> contains t think_close \<Longrightarrow> re_sub cls t = t"
proof (induction t)
  case Nil
  then show ?case by simp
next
  case (Cons c cs)
  have "match_here cls (c # cs) = None"
  proof (cases "match_here cls (c # cs)")
    case None
    then show ?thesis .
  next
    case (Some r)
    from match_here_markers(2) [OF Some] have "contains (c # cs) think_close"
      by (rule contains_drop)
    with Cons.prems show ?thesis by simp
  qed
  with Cons show ?case by simp
qed

lemma find_first_None_iff: "find_first t s = None \<longleftrightarrow> \<not> contains t s"
  by (induction t) auto

lemma lazy_until_univ:
  assumes "\<forall>c. cls c"
  shows "lazy_until cls cl t = map_option (\<lambda>j. drop (j + length cl) t) (find_first t cl)"
proof (induction t)
  case Nil
  then show ?case by (cases cl) auto
next
  case (Cons c cs)
  then show ?case
    by (simp add: assms option.map_comp comp_def)
qed

lemma spec_lazy_strip_Nil: "spec_lazy_strip [] = []"
  by (simp add: spec_lazy_strip.simps think_open_def)

lemma spec_lazy_strip_no_open:
  "find_first t think_open = None \<Longrightarrow> spec_lazy_strip t = t"
  by (simp add: spec_lazy_strip.simps)

lemma spec_lazy_strip_no_close_after:
  assumes "\<not> contains (drop n t) think_close" and "n \<le> length think_open"
  shows "spec_lazy_strip t = t"
proof (cases "find_first t think_open")
  case None
  then show ?thesis by (rule spec_lazy_strip_no_open)
next
  case (Some i)
  have "drop (i + length think_open) t = drop (i + length think_open - n) (drop n t)"
    using assms(2) by simp
  with assms(1) have "\<not> contains (drop (i + length think_open) t) think_close"
    using contains_drop by metis
  then have "find_first (drop (i + length think_open) t) think_close = None"
    by (simp add: find_first_None_iff)
  with Some show ?thesis by (simp add: spec_lazy_strip.simps)
qed

lemma spec_lazy_strip_match:
  assumes "startswith t think_open"
    and "find_first (drop (length think_open) t) think_close = Some j"
  shows "spec_lazy_strip t
         = spec_lazy_strip (drop (j + length think_close) (drop (length think_open) t))"
proof -
  from assms(1) have "find_first t think_open = Some 0"
    by (cases t) (auto simp: think_open_def)
  with assms(2) show ?thesis
    by (subst spec_lazy_strip.simps) simp
qed

lemma spec_lazy_strip_skip:
  assumes "\<not> startswith (c # cs) think_open"
  shows "spec_lazy_strip (c # cs) = c # spec_lazy_strip cs"
proof (cases "find_first cs think_open")
  case None
  with assms have "find_first (c # cs) think_open = None" by simp
  with None show ?thesis by (simp add: spec_lazy_strip_no_open)
next
  case (Some i)
  with assms have f: "find_first (c # cs) think_open = Some (Suc i)" by simp
  have "spec_lazy_strip (c # cs) =
      (case find_first (drop (i + length think_open) cs) think_close of
         None \<Rightarrow> c # cs
       | Some j \<Rightarrow>
           c # take i cs @
           spec_lazy_strip (drop (j + length think_close) (drop (i + length think_open) cs)))"
    by (subst spec_lazy_strip.simps) (simp only: f option.case add_Suc drop_Suc_Cons take_Suc_Cons append_Cons)
  moreover have "spec_lazy_strip cs =
      (case find_first (drop (i + length think_open) cs) think_close of
         None \<Rightarrow> cs
       | Some j \<Rightarrow>
           take i cs @
           spec_lazy_strip (drop (j + length think_close) (drop (i + length think_open) cs)))"
    by (subst spec_lazy_strip.simps) (simp only: Some option.case)
  ultimately show ?thesis
    by (simp split: option.splits)
qed

lemma re_sub_univ:
  assumes "\<forall>c. cls c"
  shows "re_sub cls t = spec_lazy_strip t"
  using assms
proof (induction cls t rule: re_sub.induct)
  case (1 cls)
  show ?case by (simp add: spec_lazy_strip_Nil)
next
  case (2 cls c cs)
  show ?case
  proof (cases "match_here cls (c # cs)")
    case (Some rest)
    then have s: "startswith (c # cs) think_open"
      and l: "lazy_until cls think_close (drop (length think_open) (c # cs)) = Some rest"
      by (auto simp: match_here_def split: if_splits)
    from l have "map_option (\<lambda>j. drop (j + length think_close) (drop (length think_open) (c # cs)))
          (find_first (drop (length think_open) (c # cs)) think_close) = Some rest"
      by (simp only: lazy_until_univ [OF "2.prems"])
    then obtain j
      where j: "find_first (drop (length think_open) (c # cs)) think_close = Some j"
        and r: "rest = drop (j + length think_close) (drop (length think_open) (c # cs))"
      by (cases "find_first (drop (length think_open) (c # cs)) think_close") auto
    from "2.IH"(2) [OF Some "2.prems"] Some
    have "re_sub cls (c # cs) = spec_lazy_strip rest" by simp
    also have "\<dots> = spec_lazy_strip (c # cs)"
      unfolding r by (rule spec_lazy_strip_match [OF s j, symmetric])
    finally show ?thesis .
  next
    case None
    from "2.IH"(1) [OF None "2.prems"] None
    have step: "re_sub cls (c # cs) = c # spec_lazy_strip cs" by simp
    show ?thesis
    proof (cases "startswith (c # cs) think_open")
      case False
      then show ?thesis by (simp only: step spec_lazy_strip_skip [OF False])
    next
      case True
      with None have "lazy_until cls think_close (drop (length think_open) (c # cs)) = None"
        by (simp add: match_here_def)
      then have "find_first (drop (length think_open) (c # cs)) think_close = None"
        unfolding lazy_until_univ [OF "2.prems"] by simp
      then have n: "\<not> contains (drop (length think_open) (c # cs)) think_close"
        by (simp add: find_first_None_iff)
      then have "spec_lazy_strip (c # cs) = c # cs"
        by (rule spec_lazy_strip_no_close_after) simp
      moreover from n have "\<not> contains (drop 6 cs) think_close"
        by (simp add: think_open_def eval_nat_numeral)
      then have "spec_lazy_strip cs = cs"
        by (rule spec_lazy_strip_no_close_after) (simp add: think_open_def)
      ultimately show ?thesis by (simp only: step)
    qed
  qed
qed


lemma cls_space_nonspace_all: "\<forall>c. cls_space_nonspace c"
  by (simp add: cls_space_nonspace_def)

lemma cls_dot_True_all: "\<forall>c. cls_dot True c"
  by (simp add: cls_dot_def)

lemma primary_pass_spec: "re_sub cls_space_nonspace t = spec_lazy_strip t"
  by (rule re_sub_univ [OF cls_space_nonspace_all])

lemma fallback_pass_spec: "re_sub (cls_dot True) t = spec_lazy_strip t"
  by (rule re_sub_univ [OF cls_dot_True_all])

text \<open>
  C6. The filter removes each non-greedily matched span from \<open><think>\<close> to
  \<open></think>\<close>, markers included, left to right, for zero or more pairs: its primary pass
  is the removal \<open>spec_lazy_strip\<close> that the specification words, and the result of
  \<open>remove_think_content\<close> is that of the primary pass, passed through the fallback
  pattern when a marker is left. A text with no marker is returned unchanged;
  \<open>a<think>b</think>c\<close> gives \<open>ac\<close> and \<open>a<think>b</think>c<think>d</think>e\<close>
  gives \<open>ace\<close>.
\<close>

theorem strip_removes_lazy_pairs:
  "re_sub cls_space_nonspace x = spec_lazy_strip x
   \<and> remove_think_content x =
       (if contains (spec_lazy_strip x) think_open \<or> contains (spec_lazy_strip x) think_close
        then re_sub (cls_dot True) (spec_lazy_strip x)
        else spec_lazy_strip x)
   \<and> (\<not> contains x think_open \<and> \<not> contains x think_close \<longrightarrow> remove_think_content x = x)
   \<and> remove_think_content ''a<think>b</think>c'' = ''ac''
   \<and> remove_think_content ''a<think>b</think>c<think>d</think>e'' = ''ace''
   \<and> remove_think_content ''no markers here'' = ''no markers here''"
proof -
  have a: "re_sub cls_space_nonspace x = spec_lazy_strip x"
    by (rule primary_pass_spec)
  have b: "remove_think_content x =
       (if contains (spec_lazy_strip x) think_open \<or> contains (spec_lazy_strip x) think_close
        then re_sub (cls_dot True) (spec_lazy_strip x)
        else spec_lazy_strip x)"
    by (simp add: remove_think_content_def Let_def primary_pass_spec)
  have c: "remove_think_content x = x"
    if "\<not> contains x think_open \<and> \<not> contains x think_close"
    using that by (simp add: remove_think_content_def Let_def re_sub_no_open)
  have d: "remove_think_content ''a<think>b</think>c'' = ''ac''"
    by code_simp
  have e: "remove_think_content ''a<think>b</think>c<think>d</think>e'' = ''ace''"
    by code_simp
  have f: "remove_think_content ''no markers here'' = ''no markers here''"
    by code_simp
  from a b c d e f show ?thesis by blast
qed

theorem strip_removes_lazy_pairs_witness:
  "\<not> contains ''no markers here'' think_open
   \<and> \<not> contains ''no markers here'' think_close
   \<and> remove_think_content ''no markers here'' = ''no markers here''
   \<and> re_sub cls_space_nonspace ''a<think>b</think>c'' = spec_lazy_strip ''a<think>b</think>c''
   \<and> spec_lazy_strip ''a<think>b</think>c'' = ''ac''"
proof -
  have h: "\<not> contains ''no markers here'' think_open
      \<and> \<not> contains ''no markers here'' think_close"
    by code_simp
  have v: "spec_lazy_strip ''a<think>b</think>c'' = ''ac''"
    by code_simp
  from h v strip_removes_lazy_pairs [of "''no markers here''"]
    strip_removes_lazy_pairs [of "''a<think>b</think>c''"]
  show ?thesis by blast
qed

text \<open>
  The fallback pattern \<open><think>.*?</think>\<close> with \<open>re.DOTALL\<close> matches what the primary
  pattern \<open><think>[\s\S]*?</think>\<close> matches: the second pass is the first pass again.
\<close>

lemma fallback_equals_primary: "re_sub (cls_dot True) t = re_sub cls_space_nonspace t"
  by (simp add: primary_pass_spec fallback_pass_spec)

text \<open>
  C5 at the input \<open><th<think></think>ink>a</think>b</think>\<close>: the primary pass leaves
  \<open><think>a</think>b</think>\<close>, which has a start marker, so the pass that the source
  announces as "a more aggressive approach" runs. A pass from the first start marker to the
  last end marker would leave the empty text; the source's second pass removes the
  shortest span once more and \<open>b</think>\<close> is returned.
\<close>

theorem fallback_pass_not_greedy:
  "re_sub cls_space_nonspace ''<th<think></think>ink>a</think>b</think>''
     = ''<think>a</think>b</think>''
   \<and> contains ''<think>a</think>b</think>'' think_open
   \<and> spec_greedy_pass ''<think>a</think>b</think>'' = []
   \<and> re_sub (cls_dot True) ''<think>a</think>b</think>'' = ''b</think>''
   \<and> remove_think_content ''<th<think></think>ink>a</think>b</think>'' = ''b</think>''"
  by code_simp

text \<open>
  C1 at the input \<open><th<th<think></think>ink></think>ink>y</think>\<close>: each pass joins the
  text around the span it removes, the two passes leave \<open><think>y</think>\<close>, and a
  second application of the filter removes that, so the filter applied twice differs from
  the filter applied once.
\<close>

theorem strip_twice_differs:
  "remove_think_content ''<th<th<think></think>ink></think>ink>y</think>'' = ''<think>y</think>''
   \<and> remove_think_content
         (remove_think_content ''<th<th<think></think>ink></think>ink>y</think>'') = []"
  by code_simp

text \<open>
  C4 at the same content: the exported document is the header followed by
  \<open><think>y</think>\<close>, a complete marker pair.
\<close>

theorem export_keeps_marker_pair:
  "create_markdown ''November 03, 2026'' ''<th<th<think></think>ink></think>ink>y</think>''
     = ''# AI & Data Analytics Newsletter'' @ [CHR 0x0A, CHR 0x0A]
       @ ''**Generated on November 03, 2026**'' @ [CHR 0x0A, CHR 0x0A]
       @ ''<think>y</think>''
   \<and> has_think_pair
        (create_markdown ''November 03, 2026'' ''<th<th<think></think>ink></think>ink>y</think>'')"
  by code_simp


text \<open>
  C10. The fallback pass removes nothing unless both a start marker and an end marker
  remain after the primary pass: then \<open>remove_think_content\<close> returns the result of
  the primary pass, and the fallback pattern leaves such a text as it is. On the nested
  input \<open><think>a<think>b</think>c</think>\<close> the result is \<open>c</think>\<close>, which
  still contains a lone end marker.
\<close>

theorem fallback_needs_both_markers:
  "(\<not> (contains (re_sub cls_space_nonspace x) think_open
        \<and> contains (re_sub cls_space_nonspace x) think_close)
      \<longrightarrow> remove_think_content x = re_sub cls_space_nonspace x)
   \<and> (\<not> (contains y think_open \<and> contains y think_close)
      \<longrightarrow> re_sub (cls_dot True) y = y)
   \<and> remove_think_content ''<think>a<think>b</think>c</think>'' = ''c</think>''
   \<and> contains (remove_think_content ''<think>a<think>b</think>c</think>'') think_close"
proof -
  have a: "remove_think_content x = re_sub cls_space_nonspace x"
    if "\<not> (contains (re_sub cls_space_nonspace x) think_open
        \<and> contains (re_sub cls_space_nonspace x) think_close)"
    using that re_sub_no_open re_sub_no_close
    by (auto simp: remove_think_content_def Let_def)
  have b: "re_sub (cls_dot True) y = y"
    if "\<not> (contains y think_open \<and> contains y think_close)"
    using that re_sub_no_open re_sub_no_close by auto
  have c: "remove_think_content ''<think>a<think>b</think>c</think>'' = ''c</think>''"
    by code_simp
  have d: "contains ''c</think>'' think_close"
    by code_simp
  from a b c d show ?thesis by simp
qed

theorem fallback_needs_both_markers_witness:
  "\<not> (contains (re_sub cls_space_nonspace ''<think>a<think>b</think>c</think>'') think_open
        \<and> contains (re_sub cls_space_nonspace ''<think>a<think>b</think>c</think>'') think_close)
   \<and> remove_think_content ''<think>a<think>b</think>c</think>''
       = re_sub cls_space_nonspace ''<think>a<think>b</think>c</think>''
   \<and> \<not> (contains ''c</think>'' think_open \<and> contains ''c</think>'' think_close)
   \<and> re_sub (cls_dot True) ''c</think>'' = ''c</think>''"
proof -
  have h1: "\<not> (contains (re_sub cls_space_nonspace ''<think>a<think>b</think>c</think>'') think_open
        \<and> contains (re_sub cls_space_nonspace ''<think>a<think>b</think>c</think>'') think_close)"
    by code_simp
  have h2: "\<not> (contains ''c</think>'' think_open \<and> contains ''c</think>'' think_close)"
    by code_simp
  from h1 h2
    fallback_needs_both_markers [of "''<think>a<think>b</think>c</think>''" "''c</think>''"]
  show ?thesis by blast
qed


section \<open>Properties of the generation pipeline\<close>

text \<open>
  C2, as stated, fails: no filter stands between the model and the stored content. With
  both calls succeeding and the enhancement call returning
  \<open><think>plan</think>Headline\<close>, that text is stored, marker pair included.
\<close>

theorem generate_stores_raw_output_counterexample:
  "scripted_llm [Inr ''draft'', Inr ''<think>plan</think>Headline''] 0
       (NEWSLETTER_TEMPLATE ''quantum computing trends'') = Inr ''draft''
   \<and> scripted_llm [Inr ''draft'', Inr ''<think>plan</think>Headline''] 1
       (ENTERTAINMENT_TEMPLATE ''draft'') = Inr ''<think>plan</think>Headline''
   \<and> newsletter_content
        (on_generate ''quantum computing trends''
           (scripted_llm [Inr ''draft'', Inr ''<think>plan</think>Headline'']) initial_session)
       = ''<think>plan</think>Headline''
   \<and> has_think_pair ''<think>plan</think>Headline''"
  by (simp add: on_generate_def generate_newsletter_def enhance_newsletter_def chain_run_def
      scripted_llm_def initial_session_def think_open_def think_close_def)

text \<open>
  C2, amended. When the generation call and the chained enhancement call both succeed,
  the content stored afterwards is the raw output of the enhancement call, unfiltered, and
  no error is reported. (The filter is applied by \<open>create_markdown\<close> only.)
\<close>

theorem generate_stores_raw_output:
  assumes "llm (llm_calls s) (NEWSLETTER_TEMPLATE topic) = Inr draft"
    and "llm (Suc (llm_calls s)) (ENTERTAINMENT_TEMPLATE draft) = Inr enhanced"
  shows "newsletter_content (on_generate topic llm s) = enhanced
         \<and> errors (on_generate topic llm s) = errors s"
  using assms
  by (simp add: on_generate_def generate_newsletter_def enhance_newsletter_def chain_run_def)

theorem generate_stores_raw_output_witness:
  "scripted_llm [Inr ''<think>plan</think>Headline'', Inr ''Headline (enhanced)'']
       (llm_calls initial_session) (NEWSLETTER_TEMPLATE ''quantum computing trends'')
     = Inr ''<think>plan</think>Headline''
   \<and> scripted_llm [Inr ''<think>plan</think>Headline'', Inr ''Headline (enhanced)'']
       (Suc (llm_calls initial_session)) (ENTERTAINMENT_TEMPLATE ''<think>plan</think>Headline'')
     = Inr ''Headline (enhanced)''
   \<and> newsletter_content
        (on_generate ''quantum computing trends''
           (scripted_llm [Inr ''<think>plan</think>Headline'', Inr ''Headline (enhanced)''])
           initial_session)
       = ''Headline (enhanced)''"
proof -
  have h1: "scripted_llm [Inr ''<think>plan</think>Headline'', Inr ''Headline (enhanced)'']
       (llm_calls initial_session) (NEWSLETTER_TEMPLATE ''quantum computing trends'')
     = Inr ''<think>plan</think>Headline''"
    by (simp add: scripted_llm_def initial_session_def)
  have h2: "scripted_llm [Inr ''<think>plan</think>Headline'', Inr ''Headline (enhanced)'']
       (Suc (llm_calls initial_session)) (ENTERTAINMENT_TEMPLATE ''<think>plan</think>Headline'')
     = Inr ''Headline (enhanced)''"
    by (simp add: scripted_llm_def initial_session_def)
  from generate_stores_raw_output [OF h1 h2] h1 h2 show ?thesis by blast
qed


text \<open>
  C3, as stated, fails. With \<open>old draft\<close> stored: when the generation call fails and the
  enhancement call succeeds, the stored content becomes the enhancement output; when the
  generation call succeeds and the enhancement call fails, it becomes the raw generated
  text. In both runs the stored content is replaced with new text.
\<close>

theorem generate_failure_replaces_content_counterexample:
  "scripted_llm [Inl (Exception ''connection refused''), Inr ''Enhanced text''] 0
       (NEWSLETTER_TEMPLATE ''topic'') = Inl (Exception ''connection refused'')
   \<and> newsletter_content
        (on_generate ''topic''
           (scripted_llm [Inl (Exception ''connection refused''), Inr ''Enhanced text''])
           \<lparr>newsletter_content = ''old draft'', errors = [], llm_calls = 0, requests_made = []\<rparr>)
       = ''Enhanced text''
   \<and> scripted_llm [Inr ''raw draft'', Inl (Exception ''timeout'')] 1
       (ENTERTAINMENT_TEMPLATE ''raw draft'') = Inl (Exception ''timeout'')
   \<and> newsletter_content
        (on_generate ''topic''
           (scripted_llm [Inr ''raw draft'', Inl (Exception ''timeout'')])
           \<lparr>newsletter_content = ''old draft'', errors = [], llm_calls = 0, requests_made = []\<rparr>)
       = ''raw draft''"
  by (simp add: on_generate_def generate_newsletter_def enhance_newsletter_def chain_run_def
      st_error_def scripted_llm_def)

text \<open>
  C3, amended. A failure of either call is reported with \<open>st.error\<close>, and the stored
  content is replaced all the same. If the generation call fails, the enhancement call is
  still made, on the empty text: the stored content becomes its output when it succeeds
  and the empty text when it fails too. If the generation call succeeds and the
  enhancement call fails, the stored content becomes the raw generated text.
\<close>

theorem generate_failure_outcomes:
  "(llm (llm_calls s) (NEWSLETTER_TEMPLATE topic) = Inl e1
      \<and> llm (Suc (llm_calls s)) (ENTERTAINMENT_TEMPLATE []) = Inr enhanced
    \<longrightarrow> newsletter_content (on_generate topic llm s) = enhanced
        \<and> errors (on_generate topic llm s)
            = errors s @ [''Error generating newsletter: '' @ str_exn e1])
   \<and> (llm (llm_calls s) (NEWSLETTER_TEMPLATE topic) = Inl e1
      \<and> llm (Suc (llm_calls s)) (ENTERTAINMENT_TEMPLATE []) = Inl e2
    \<longrightarrow> newsletter_content (on_generate topic llm s) = []
        \<and> errors (on_generate topic llm s)
            = errors s @ [''Error generating newsletter: '' @ str_exn e1,
                          ''Error enhancing newsletter: '' @ str_exn e2])
   \<and> (llm (llm_calls s) (NEWSLETTER_TEMPLATE topic) = Inr draft
      \<and> llm (Suc (llm_calls s)) (ENTERTAINMENT_TEMPLATE draft) = Inl e2
    \<longrightarrow> newsletter_content (on_generate topic llm s) = draft
        \<and> errors (on_generate topic llm s)
            = errors s @ [''Error enhancing newsletter: '' @ str_exn e2])"
  by (simp add: on_generate_def generate_newsletter_def enhance_newsletter_def chain_run_def
      st_error_def)

theorem generate_failure_outcomes_witness:
  "newsletter_content
     (on_generate ''topic''
        (scripted_llm [Inl (Exception ''connection refused''), Inr ''Enhanced text''])
        initial_session) = ''Enhanced text''
   \<and> errors
     (on_generate ''topic''
        (scripted_llm [Inl (Exception ''connection refused''), Inr ''Enhanced text''])
        initial_session) = [''Error generating newsletter: connection refused'']
   \<and> newsletter_content
     (on_generate ''topic''
        (scripted_llm [Inl (Exception ''connection refused''), Inl (Exception ''timeout'')])
        initial_session) = []
   \<and> errors
     (on_generate ''topic''
        (scripted_llm [Inl (Exception ''connection refused''), Inl (Exception ''timeout'')])
        initial_session)
       = [''Error generating newsletter: connection refused'',
          ''Error enhancing newsletter: timeout'']
   \<and> newsletter_content
     (on_generate ''topic''
        (scripted_llm [Inr ''raw draft'', Inl (Exception ''timeout'')])
        initial_session) = ''raw draft''
   \<and> errors
     (on_generate ''topic''
        (scripted_llm [Inr ''raw draft'', Inl (Exception ''timeout'')])
        initial_session) = [''Error enhancing newsletter: timeout'']"
proof -
  have a: "scripted_llm [Inl (Exception ''connection refused''), Inr ''Enhanced text'']
        (llm_calls initial_session) (NEWSLETTER_TEMPLATE ''topic'')
      = Inl (Exception ''connection refused'')
    \<and> scripted_llm [Inl (Exception ''connection refused''), Inr ''Enhanced text'']
        (Suc (llm_calls initial_session)) (ENTERTAINMENT_TEMPLATE []) = Inr ''Enhanced text''"
    by (simp add: scripted_llm_def initial_session_def)
  have b: "scripted_llm [Inl (Exception ''connection refused''), Inl (Exception ''timeout'')]
        (llm_calls initial_session) (NEWSLETTER_TEMPLATE ''topic'')
      = Inl (Exception ''connection refused'')
    \<and> scripted_llm [Inl (Exception ''connection refused''), Inl (Exception ''timeout'')]
        (Suc (llm_calls initial_session)) (ENTERTAINMENT_TEMPLATE []) = Inl (Exception ''timeout'')"
    by (simp add: scripted_llm_def initial_session_def)
  have c: "scripted_llm [Inr ''raw draft'', Inl (Exception ''timeout'')]
        (llm_calls initial_session) (NEWSLETTER_TEMPLATE ''topic'') = Inr ''raw draft''
    \<and> scripted_llm [Inr ''raw draft'', Inl (Exception ''timeout'')]
        (Suc (llm_calls initial_session)) (ENTERTAINMENT_TEMPLATE ''raw draft'')
      = Inl (Exception ''timeout'')"
    by (simp add: scripted_llm_def initial_session_def)
  have e0: "errors initial_session = []"
    by (simp add: initial_session_def)
  from a
    generate_failure_outcomes [of
      "scripted_llm [Inl (Exception ''connection refused''), Inr ''Enhanced text'']"
      initial_session "''topic''" "Exception ''connection refused''" "''Enhanced text''"]
  have r1: "newsletter_content
     (on_generate ''topic''
        (scripted_llm [Inl (Exception ''connection refused''), Inr ''Enhanced text''])
        initial_session) = ''Enhanced text''
   \<and> errors
     (on_generate ''topic''
        (scripted_llm [Inl (Exception ''connection refused''), Inr ''Enhanced text''])
        initial_session) = [''Error generating newsletter: connection refused'']"
    by (simp add: e0)
  from b
    generate_failure_outcomes [of
      "scripted_llm [Inl (Exception ''connection refused''), Inl (Exception ''timeout'')]"
      initial_session "''topic''" "Exception ''connection refused''" _ "Exception ''timeout''"]
  have r2: "newsletter_content
     (on_generate ''topic''
        (scripted_llm [Inl (Exception ''connection refused''), Inl (Exception ''timeout'')])
        initial_session) = []
   \<and> errors
     (on_generate ''topic''
        (scripted_llm [Inl (Exception ''connection refused''), Inl (Exception ''timeout'')])
        initial_session)
       = [''Error generating newsletter: connection refused'',
          ''Error enhancing newsletter: timeout'']"
    by (simp add: e0)
  from c
    generate_failure_outcomes [of
      "scripted_llm [Inr ''raw draft'', Inl (Exception ''timeout'')]"
      initial_session "''topic''" _ _ "Exception ''timeout''" "''raw draft''"]
  have r3: "newsletter_content
     (on_generate ''topic''
        (scripted_llm [Inr ''raw draft'', Inl (Exception ''timeout'')])
        initial_session) = ''raw draft''
   \<and> errors
     (on_generate ''topic''
        (scripted_llm [Inr ''raw draft'', Inl (Exception ''timeout'')])
        initial_session) = [''Error enhancing newsletter: timeout'']"
    by (simp add: e0)
  from r1 r2 r3 show ?thesis by blast
qed

text \<open>
  C7. When the model call fails, \<open>enhance_newsletter\<close> and \<open>refine_newsletter\<close> return
  the content they were given, and the refine handler leaves the stored content as it was.
\<close>

theorem failed_call_keeps_content:
  "(llm (llm_calls s) (ENTERTAINMENT_TEMPLATE current_content) = Inl e
      \<longrightarrow> fst (enhance_newsletter current_content llm s) = current_content)
   \<and> (llm (llm_calls s) (REFINEMENT_TEMPLATE current_content refinement_instructions) = Inl e
      \<longrightarrow> fst (refine_newsletter current_content refinement_instructions llm s) = current_content)
   \<and> (llm (llm_calls s) (REFINEMENT_TEMPLATE (newsletter_content s) refinement_instructions) = Inl e
      \<longrightarrow> newsletter_content (on_refine refinement_instructions llm s) = newsletter_content s)"
  by (simp add: enhance_newsletter_def refine_newsletter_def on_refine_def chain_run_def
      st_error_def)

theorem failed_call_keeps_content_witness:
  "scripted_llm [Inl (Exception ''timeout'')] 0 (ENTERTAINMENT_TEMPLATE ''my draft'')
     = Inl (Exception ''timeout'')
   \<and> fst (enhance_newsletter ''my draft'' (scripted_llm [Inl (Exception ''timeout'')])
        \<lparr>newsletter_content = ''my draft'', errors = [], llm_calls = 0, requests_made = []\<rparr>)
     = ''my draft''
   \<and> scripted_llm [Inl (Exception ''timeout'')] 0 (REFINEMENT_TEMPLATE ''my draft'' ''shorter'')
     = Inl (Exception ''timeout'')
   \<and> fst (refine_newsletter ''my draft'' ''shorter'' (scripted_llm [Inl (Exception ''timeout'')])
        \<lparr>newsletter_content = ''my draft'', errors = [], llm_calls = 0, requests_made = []\<rparr>)
     = ''my draft''
   \<and> newsletter_content
       (on_refine ''shorter'' (scripted_llm [Inl (Exception ''timeout'')])
        \<lparr>newsletter_content = ''my draft'', errors = [], llm_calls = 0, requests_made = []\<rparr>)
     = ''my draft''"
proof -
  have h: "scripted_llm [Inl (Exception ''timeout'')] 0 (ENTERTAINMENT_TEMPLATE ''my draft'')
       = Inl (Exception ''timeout'')
     \<and> scripted_llm [Inl (Exception ''timeout'')] 0 (REFINEMENT_TEMPLATE ''my draft'' ''shorter'')
       = Inl (Exception ''timeout'')"
    by (simp add: scripted_llm_def)
  from h
    failed_call_keeps_content [of "scripted_llm [Inl (Exception ''timeout'')]"
      "\<lparr>newsletter_content = ''my draft'', errors = [], llm_calls = 0, requests_made = []\<rparr>"
      "''my draft''" "Exception ''timeout''" "''shorter''"]
  show ?thesis by simp
qed


section \<open>Properties of the news lookup\<close>

lemma source_names_all_present:
  "map source_name articles = map Some sources \<Longrightarrow> source_names articles = Inr sources"
proof (induction articles arbitrary: sources)
  case Nil
  then show ?case by simp
next
  case (Cons a as)
  then obtain n ns where s: "sources = n # ns" "source_name a = Some n"
    "map source_name as = map Some ns"
    by (cases sources) auto
  with Cons.IH [of ns] show ?case by simp
qed

lemma counter_add_keys:
  "map fst (counter_add k c) = (if k \<in> fst ` set c then map fst c else map fst c @ [k])"
  by (induction c) (auto split: if_splits)

lemma counter_add_map_of:
  "map_of (counter_add k c)
     = (map_of c)(k \<mapsto> Suc (case map_of c k of None \<Rightarrow> 0 | Some m \<Rightarrow> m))"
  by (induction c) (auto simp: fun_eq_iff)

lemma Counter_snoc: "Counter (xs @ [x]) = counter_add x (Counter xs)"
  by (simp add: Counter_def)

lemma Counter_keys_set: "fst ` set (Counter xs) = set xs"
proof (induction xs rule: rev_induct)
  case Nil
  then show ?case by (simp add: Counter_def)
next
  case (snoc x xs)
  have "fst ` set (counter_add x (Counter xs)) = set (map fst (counter_add x (Counter xs)))"
    by simp
  also have "\<dots> = insert x (set xs)"
    unfolding counter_add_keys using snoc.IH by auto
  finally show ?case by (simp add: Counter_snoc)
qed

lemma Counter_keys_distinct: "distinct (map fst (Counter xs))"
proof (induction xs rule: rev_induct)
  case Nil
  then show ?case by (simp add: Counter_def)
next
  case (snoc x xs)
  then show ?case
    by (simp add: Counter_snoc counter_add_keys)
qed

lemma Counter_map_of:
  "map_of (Counter xs) k = (if k \<in> set xs then Some (count_list xs k) else None)"
proof (induction xs arbitrary: k rule: rev_induct)
  case Nil
  then show ?case by (simp add: Counter_def)
next
  case (snoc x xs)
  show ?case
    by (simp add: Counter_snoc counter_add_map_of snoc.IH)
qed

lemma Counter_entry:
  "(k, n) \<in> set (Counter xs) \<longleftrightarrow> k \<in> set xs \<and> n = count_list xs k"
  using map_of_eq_Some_iff [OF Counter_keys_distinct, of xs k n]
  by (auto simp: Counter_map_of split: if_splits)

lemma first_index_snoc_old: "k \<in> set xs \<Longrightarrow> first_index (xs @ [x]) k = first_index xs k"
  by (simp add: first_index_def)

lemma first_index_snoc_new: "x \<notin> set xs \<Longrightarrow> first_index (xs @ [x]) x = length xs"
proof -
  assume "x \<notin> set xs"
  then have "takeWhile (\<lambda>y. y \<noteq> x) (xs @ [x]) = xs @ takeWhile (\<lambda>y. y \<noteq> x) [x]"
    by (intro takeWhile_append2) auto
  then show ?thesis by (simp add: first_index_def)
qed

lemma first_index_less: "k \<in> set xs \<Longrightarrow> first_index xs k < length xs"
  by (induction xs) (auto simp: first_index_def)

lemma Counter_keys_order:
  "sorted_wrt (\<lambda>a b. first_index xs a < first_index xs b) (map fst (Counter xs))"
proof (induction xs rule: rev_induct)
  case Nil
  then show ?case by (simp add: Counter_def)
next
  case (snoc x xs)
  let ?K = "map fst (Counter xs)"
  have K: "set ?K = set xs"
    using Counter_keys_set [of xs] by simp
  have old: "sorted_wrt (\<lambda>a b. first_index (xs @ [x]) a < first_index (xs @ [x]) b) ?K"
    using snoc.IH
    by (rule sorted_wrt_mono_rel [rotated]) (simp add: Counter_keys_set first_index_snoc_old)
  show ?case
  proof (cases "x \<in> set xs")
    case True
    with old K show ?thesis
      by (simp add: Counter_snoc counter_add_keys Counter_keys_set)
  next
    case False
    have "\<forall>k\<in>set ?K. first_index (xs @ [x]) k < first_index (xs @ [x]) x"
      using False K by (simp add: first_index_snoc_old first_index_snoc_new first_index_less)
    with old False show ?thesis
      by (simp add: Counter_snoc counter_add_keys Counter_keys_set sorted_wrt_append)
  qed
qed


lemma set_insert_desc: "set (insert_desc x ys) = insert x (set ys)"
  by (induction ys) auto

lemma set_sorted_reverse: "set (sorted_reverse c) = set c"
  by (induction c) (auto simp: sorted_reverse_def set_insert_desc)

lemma length_insert_desc: "length (insert_desc x ys) = Suc (length ys)"
  by (induction ys) auto

lemma length_sorted_reverse: "length (sorted_reverse c) = length c"
  by (induction c) (auto simp: sorted_reverse_def length_insert_desc)

lemma distinct_keys_insert_desc:
  "distinct (map fst (insert_desc x ys)) \<longleftrightarrow> fst x \<notin> fst ` set ys \<and> distinct (map fst ys)"
  by (induction ys) (auto simp: set_insert_desc)

lemma distinct_keys_sorted_reverse:
  "distinct (map fst c) \<Longrightarrow> distinct (map fst (sorted_reverse c))"
proof (induction c)
  case Nil
  then show ?case by (simp add: sorted_reverse_def)
next
  case (Cons x c)
  have "sorted_reverse (x # c) = insert_desc x (sorted_reverse c)"
    by (simp add: sorted_reverse_def)
  with Cons show ?case
    by (simp add: distinct_keys_insert_desc set_sorted_reverse)
qed

text \<open>
  The order of a ranking: a higher count first, and among equal counts whatever order
  \<open>P\<close> the items had before sorting.
\<close>

lemma insert_desc_ranked:
  assumes "sorted_wrt (\<lambda>a b. snd b < snd a \<or> (snd a = snd b \<and> P a b)) ys"
    and "\<forall>y\<in>set ys. P x y"
  shows "sorted_wrt (\<lambda>a b. snd b < snd a \<or> (snd a = snd b \<and> P a b)) (insert_desc x ys)"
  using assms
proof (induction ys)
  case Nil
  then show ?case by simp
next
  case (Cons y ys)
  show ?case
  proof (cases "snd y \<le> snd x")
    case True
    have "snd z < snd x \<or> (snd x = snd z \<and> P x z)" if "z \<in> set (y # ys)" for z
    proof -
      from that Cons.prems(1) have "snd z \<le> snd y" by auto
      with True have "snd z \<le> snd x" by simp
      moreover from that Cons.prems(2) have "P x z" by blast
      ultimately show ?thesis by auto
    qed
    with True Cons.prems(1) show ?thesis by simp
  next
    case False
    from Cons have "sorted_wrt (\<lambda>a b. snd b < snd a \<or> (snd a = snd b \<and> P a b)) (insert_desc x ys)"
      by simp
    with False Cons.prems(1) show ?thesis
      by (auto simp: set_insert_desc)
  qed
qed

lemma sorted_reverse_ranked:
  assumes "sorted_wrt P c"
  shows "sorted_wrt (\<lambda>a b. snd b < snd a \<or> (snd a = snd b \<and> P a b)) (sorted_reverse c)"
  using assms
proof (induction c)
  case Nil
  then show ?case by (simp add: sorted_reverse_def)
next
  case (Cons x c)
  have "sorted_reverse (x # c) = insert_desc x (sorted_reverse c)"
    by (simp add: sorted_reverse_def)
  moreover from Cons have "sorted_wrt (\<lambda>a b. snd b < snd a \<or> (snd a = snd b \<and> P a b)) (sorted_reverse c)"
    by simp
  moreover from Cons.prems have "\<forall>y\<in>set (sorted_reverse c). P x y"
    by (simp add: set_sorted_reverse)
  ultimately show ?case
    by (simp add: insert_desc_ranked)
qed

lemma sorted_wrt_take_drop:
  assumes "sorted_wrt R xs"
  shows "sorted_wrt R (take n xs)"
    and "\<forall>a\<in>set (take n xs). \<forall>b\<in>set (drop n xs). R a b"
proof -
  from assms have "sorted_wrt R (take n xs @ drop n xs)" by simp
  then show "sorted_wrt R (take n xs)"
    and "\<forall>a\<in>set (take n xs). \<forall>b\<in>set (drop n xs). R a b"
    unfolding sorted_wrt_append by auto
qed

lemma Counter_ranked:
  "sorted_wrt
     (\<lambda>a b. snd b < snd a
           \<or> (snd a = snd b \<and> first_index xs (fst a) < first_index xs (fst b)))
     (sorted_reverse (Counter xs))"
proof -
  have "sorted_wrt (\<lambda>a b. first_index xs (fst a) < first_index xs (fst b)) (Counter xs)"
    using Counter_keys_order [of xs] by (simp add: sorted_wrt_map)
  then show ?thesis by (rule sorted_reverse_ranked)
qed

lemma most_common_Counter:
  fixes sources :: "'a list"
  defines "r \<equiv> most_common 3 (Counter sources)"
  shows "length r = min 3 (card (set sources))"
    and "distinct (map fst r)"
    and "\<forall>e\<in>set r. fst e \<in> set sources \<and> snd e = count_list sources (fst e)"
    and "sorted_wrt
           (\<lambda>a b. snd b < snd a
                 \<or> (snd a = snd b
                    \<and> first_index sources (fst a) < first_index sources (fst b))) r"
    and "\<forall>k\<in>set sources. k \<notin> fst ` set r \<longrightarrow>
           (\<forall>e\<in>set r. count_list sources k < snd e
                 \<or> (snd e = count_list sources k
                    \<and> first_index sources (fst e) < first_index sources k))"
proof -
  let ?s = "sorted_reverse (Counter sources)"
  let ?R = "\<lambda>a b. snd b < snd a
                 \<or> (snd a = snd b
                    \<and> first_index sources (fst a) < first_index sources (fst b))"
  have r: "r = take 3 ?s" by (simp add: r_def most_common_def)
  have "length (Counter sources) = length (map fst (Counter sources))" by simp
  also have "\<dots> = card (set (map fst (Counter sources)))"
    by (rule distinct_card [OF Counter_keys_distinct, symmetric])
  also have "\<dots> = card (set sources)"
    using Counter_keys_set [of sources] by simp
  finally have len: "length (Counter sources) = card (set sources)" .
  show "length r = min 3 (card (set sources))"
    by (simp add: r length_sorted_reverse len min.commute)
  have "distinct (map fst ?s)"
    by (rule distinct_keys_sorted_reverse [OF Counter_keys_distinct])
  then have "distinct (take 3 (map fst ?s))" by (rule distinct_take)
  then show "distinct (map fst r)" by (simp add: r take_map)
  have sub: "set r \<subseteq> set (Counter sources)"
    using set_take_subset [of 3 ?s] by (simp add: r set_sorted_reverse)
  show "\<forall>e\<in>set r. fst e \<in> set sources \<and> snd e = count_list sources (fst e)"
  proof
    fix e assume "e \<in> set r"
    with sub have "(fst e, snd e) \<in> set (Counter sources)" by auto
    then show "fst e \<in> set sources \<and> snd e = count_list sources (fst e)"
      by (simp only: Counter_entry)
  qed
  have ranked: "sorted_wrt ?R ?s" by (rule Counter_ranked)
  from sorted_wrt_take_drop(1) [OF ranked] show "sorted_wrt ?R r" by (simp add: r)
  show "\<forall>k\<in>set sources. k \<notin> fst ` set r \<longrightarrow>
           (\<forall>e\<in>set r. count_list sources k < snd e
                 \<or> (snd e = count_list sources k
                    \<and> first_index sources (fst e) < first_index sources k))"
  proof (intro ballI impI)
    fix k e
    assume k: "k \<in> set sources" and out: "k \<notin> fst ` set r" and e: "e \<in> set r"
    from k have "(k, count_list sources k) \<in> set (Counter sources)"
      by (simp add: Counter_entry)
    then have "(k, count_list sources k) \<in> set (take 3 ?s @ drop 3 ?s)"
      by (simp add: set_sorted_reverse)
    moreover from out have "(k, count_list sources k) \<notin> set (take 3 ?s)"
      unfolding r by force
    ultimately have "(k, count_list sources k) \<in> set (drop 3 ?s)"
      unfolding set_append by blast
    with sorted_wrt_take_drop(2) [OF ranked, of 3] e
    have "?R e (k, count_list sources k)" unfolding r by blast
    then show "count_list sources k < snd e
                 \<or> (snd e = count_list sources k
                    \<and> first_index sources (fst e) < first_index sources k)"
      by simp
  qed
qed


text \<open>
  C9. When every article carries a source name, \<open>get_top_news_orgs\<close> returns the names
  paired with their numbers of occurrences, at most three of them and each name once, in
  the order of descending count with ties in the order in which the names were first met;
  a name left out ranks behind every entry returned. For the sources A, A, B, C, A the
  ranking is (A, 3), (B, 1), (C, 1).
\<close>

theorem top_sources_ranking:
  assumes "map source_name articles = map Some sources"
  shows "(\<exists>r. get_top_news_orgs articles = Inr r
            \<and> length r = min 3 (card (set sources))
            \<and> distinct (map fst r)
            \<and> (\<forall>e\<in>set r. fst e \<in> set sources \<and> snd e = count_list sources (fst e))
            \<and> sorted_wrt
                 (\<lambda>a b. snd b < snd a
                       \<or> (snd a = snd b
                          \<and> first_index sources (fst a) < first_index sources (fst b))) r
            \<and> (\<forall>k\<in>set sources. k \<notin> fst ` set r \<longrightarrow>
                 (\<forall>e\<in>set r. count_list sources k < snd e
                       \<or> (snd e = count_list sources k
                          \<and> first_index sources (fst e) < first_index sources k))))
         \<and> get_top_news_orgs (map article_from [''A'', ''A'', ''B'', ''C'', ''A''])
             = Inr [(''A'', 3), (''B'', 1), (''C'', 1)]"
proof
  have "get_top_news_orgs articles = Inr (most_common 3 (Counter sources))"
    by (simp add: get_top_news_orgs_def source_names_all_present [OF assms])
  with most_common_Counter [of sources]
  show "\<exists>r. get_top_news_orgs articles = Inr r
            \<and> length r = min 3 (card (set sources))
            \<and> distinct (map fst r)
            \<and> (\<forall>e\<in>set r. fst e \<in> set sources \<and> snd e = count_list sources (fst e))
            \<and> sorted_wrt
                 (\<lambda>a b. snd b < snd a
                       \<or> (snd a = snd b
                          \<and> first_index sources (fst a) < first_index sources (fst b))) r
            \<and> (\<forall>k\<in>set sources. k \<notin> fst ` set r \<longrightarrow>
                 (\<forall>e\<in>set r. count_list sources k < snd e
                       \<or> (snd e = count_list sources k
                          \<and> first_index sources (fst e) < first_index sources k)))"
    by blast
next
  show "get_top_news_orgs (map article_from [''A'', ''A'', ''B'', ''C'', ''A''])
             = Inr [(''A'', 3), (''B'', 1), (''C'', 1)]"
    by code_simp
qed

theorem top_sources_ranking_witness:
  "map source_name (map article_from [''B'', ''A'', ''C'', ''A'', ''D'', ''C'', ''E''])
     = map Some [''B'', ''A'', ''C'', ''A'', ''D'', ''C'', ''E'']
   \<and> get_top_news_orgs (map article_from [''B'', ''A'', ''C'', ''A'', ''D'', ''C'', ''E''])
     = Inr [(''A'', 2), (''C'', 2), (''B'', 1)]
   \<and> (\<exists>r. get_top_news_orgs (map article_from [''B'', ''A'', ''C'', ''A'', ''D'', ''C'', ''E''])
            = Inr r
          \<and> length r = min 3 (card (set [''B'', ''A'', ''C'', ''A'', ''D'', ''C'', ''E'']))
          \<and> distinct (map fst r))"
proof -
  have h: "map source_name (map article_from [''B'', ''A'', ''C'', ''A'', ''D'', ''C'', ''E''])
     = map Some [''B'', ''A'', ''C'', ''A'', ''D'', ''C'', ''E'']"
    by (simp add: article_from_def)
  have v: "get_top_news_orgs (map article_from [''B'', ''A'', ''C'', ''A'', ''D'', ''C'', ''E''])
     = Inr [(''A'', 2), (''C'', 2), (''B'', 1)]"
    by code_simp
  from top_sources_ranking [OF h] h v show ?thesis by blast
qed

lemma fetch_requests_made:
  "requests_made (snd (fetch_news_articles query api_key net s))
     = requests_made s @ [news_url query api_key]"
  by (simp add: fetch_news_articles_def st_error_def Let_def
      split: http_result.splits body.splits option.splits)

lemma fetch_raises:
  assumes "net (news_url query api_key) = Raises msg"
  shows "fst (fetch_news_articles query api_key net s) = Inr []"
    and "errors (snd (fetch_news_articles query api_key net s))
           = errors s @ [''Error fetching news articles: '' @ msg]"
  using assms by (simp_all add: fetch_news_articles_def st_error_def Let_def)

lemma fetch_error_status:
  assumes "net (news_url query api_key) = Response status http_error b"
    and "400 \<le> status" and "status < 600"
  shows "fst (fetch_news_articles query api_key net s) = Inr []"
    and "errors (snd (fetch_news_articles query api_key net s))
           = errors s @ [''Error fetching news articles: '' @ http_error]"
  using assms by (simp_all add: fetch_news_articles_def st_error_def Let_def)

lemma news_url_None:
  "news_url query None
     = ''https://newsapi.org/v2/everything?q='' @ query
       @ ''&sortBy=publishedAt&pageSize=5&apiKey=None''"
  by (simp add: news_url_def format_api_key_def)

text \<open>
  C8, as stated, fails: with no API key in the environment the search is not stopped
  before the network call. The request goes out, with \<open>None\<close> as the key.
\<close>

theorem missing_key_request_sent_counterexample:
  "requests_made (snd (on_search_news ''AI'' None unauthorized_network initial_session))
     = [''https://newsapi.org/v2/everything?q=AI&sortBy=publishedAt&pageSize=5&apiKey=None'']
   \<and> requests_made initial_session = []"
  by (simp add: on_search_news_def fetch_requests_made news_url_None initial_session_def)

text \<open>
  C8, amended. With the API key missing, a news search still sends its request, the key
  rendered as \<open>None\<close>; there is no configuration error. When the request raises or the
  answer has an error status, the failure is reported with \<open>st.error\<close> and the search
  yields no articles: news search is unavailable, not fatal.
\<close>

theorem missing_key_request_sent:
  "requests_made (snd (on_search_news query None net s))
     = requests_made s
       @ [''https://newsapi.org/v2/everything?q='' @ query
          @ ''&sortBy=publishedAt&pageSize=5&apiKey=None'']
   \<and> (net (news_url query None) = Raises msg
      \<longrightarrow> fst (on_search_news query None net s) = Inr []
          \<and> errors (snd (on_search_news query None net s))
              = errors s @ [''Error fetching news articles: '' @ msg])
   \<and> (net (news_url query None) = Response status http_error b \<and> 400 \<le> status \<and> status < 600
      \<longrightarrow> fst (on_search_news query None net s) = Inr []
          \<and> errors (snd (on_search_news query None net s))
              = errors s @ [''Error fetching news articles: '' @ http_error])"
  unfolding on_search_news_def
  using fetch_requests_made [of query None net s] news_url_None [of query]
    fetch_raises [of net query None msg s]
    fetch_error_status [of net query None status http_error b s]
  by simp

theorem missing_key_request_sent_witness:
  "unauthorized_network (news_url ''AI'' None)
     = Response 401
         (''401 Client Error: Unauthorized for url: '' @ news_url ''AI'' None) (Json_object None)
   \<and> fst (on_search_news ''AI'' None unauthorized_network initial_session) = Inr []
   \<and> errors (snd (on_search_news ''AI'' None unauthorized_network initial_session))
     = [''Error fetching news articles: 401 Client Error: Unauthorized for url: ''
        @ ''https://newsapi.org/v2/everything?q=AI&sortBy=publishedAt&pageSize=5&apiKey=None'']
   \<and> unreachable_network (news_url ''AI'' None) = Raises ''connection refused''
   \<and> fst (on_search_news ''AI'' None unreachable_network initial_session) = Inr []
   \<and> errors (snd (on_search_news ''AI'' None unreachable_network initial_session))
     = [''Error fetching news articles: connection refused'']
   \<and> requests_made (snd (on_search_news ''AI'' None unreachable_network initial_session))
     = [''https://newsapi.org/v2/everything?q=AI&sortBy=publishedAt&pageSize=5&apiKey=None'']"
proof -
  have h1: "unauthorized_network (news_url ''AI'' None)
      = Response 401
          (''401 Client Error: Unauthorized for url: '' @ news_url ''AI'' None) (Json_object None)
    \<and> (400::nat) \<le> 401 \<and> (401::nat) < 600"
    by (simp add: unauthorized_network_def)
  have h2: "unreachable_network (news_url ''AI'' None) = Raises ''connection refused''"
    by (simp add: unreachable_network_def)
  have e: "errors initial_session = []" "requests_made initial_session = []"
    by (simp_all add: initial_session_def)
  have u: "news_url ''AI'' None
      = ''https://newsapi.org/v2/everything?q=AI&sortBy=publishedAt&pageSize=5&apiKey=None''"
    by (simp add: news_url_None)
  from h1
    missing_key_request_sent [of "''AI''" unauthorized_network initial_session _ 401
      "''401 Client Error: Unauthorized for url: '' @ news_url ''AI'' None" "Json_object None"]
  have "fst (on_search_news ''AI'' None unauthorized_network initial_session) = Inr []
   \<and> errors (snd (on_search_news ''AI'' None unauthorized_network initial_session))
     = errors initial_session
       @ [''Error fetching news articles: ''
          @ ''401 Client Error: Unauthorized for url: '' @ news_url ''AI'' None]"
    by blast
  then have a: "fst (on_search_news ''AI'' None unauthorized_network initial_session) = Inr []
   \<and> errors (snd (on_search_news ''AI'' None unauthorized_network initial_session))
     = [''Error fetching news articles: 401 Client Error: Unauthorized for url: ''
        @ ''https://newsapi.org/v2/everything?q=AI&sortBy=publishedAt&pageSize=5&apiKey=None'']"
    by (simp add: e u)
  from h2
    missing_key_request_sent [of "''AI''" unreachable_network initial_session
      "''connection refused''"]
  have b: "fst (on_search_news ''AI'' None unreachable_network initial_session) = Inr []
   \<and> errors (snd (on_search_news ''AI'' None unreachable_network initial_session))
     = [''Error fetching news articles: connection refused'']
   \<and> requests_made (snd (on_search_news ''AI'' None unreachable_network initial_session))
     = [''https://newsapi.org/v2/everything?q=AI&sortBy=publishedAt&pageSize=5&apiKey=None'']"
    by (simp add: e)
  from h1 h2 a b show ?thesis by blast
qed

end
